theory Spec2Isabelle
  imports Main "HOL-Library.Sublist" "HOL-Library.AList"
begin

section \<open>Python strings\<close>

text \<open>
  A Python \<open>str\<close> is modelled as a \<open>string\<close>. A character stands for the code point of
  the same number, so the texts of the model are the Python strings over U+0000 .. U+00FF.
  On these, \<open>str.strip\<close>, \<open>str.lower\<close>, \<open>in\<close>, \<open>str.startswith\<close> and \<open>str.replace\<close>
  are as defined below.
\<close>

text \<open>The code points below U+0100 for which \<open>str.isspace\<close> holds.\<close>

definition whitespace :: "char list" where
  "whitespace = [CHR 0x09, CHR 0x0A, CHR 0x0B, CHR 0x0C, CHR 0x0D, CHR 0x1C, CHR 0x1D,
     CHR 0x1E, CHR 0x1F, CHR 0x20, CHR 0x85, CHR 0xA0]"

definition isspace :: "char \<Rightarrow> bool" where
  "isspace c = (c \<in> set whitespace)"

definition lstrip :: "string \<Rightarrow> string" where
  "lstrip s = dropWhile isspace s"

definition rstrip :: "string \<Rightarrow> string" where
  "rstrip s = rev (dropWhile isspace (rev s))"

text \<open>\<open>s.strip()\<close>\<close>

definition strip :: "string \<Rightarrow> string" where
  "strip s = rstrip (lstrip s)"

text \<open>
  The cased letters below U+0100: A-Z and U+00C0 .. U+00DE without the multiplication sign
  U+00D7; each lower-cases to the code point 32 above it.
\<close>

definition uppercase :: "char list" where
  "uppercase = ''ABCDEFGHIJKLMNOPQRSTUVWXYZ'' @
     [CHR 0xC0, CHR 0xC1, CHR 0xC2, CHR 0xC3, CHR 0xC4, CHR 0xC5, CHR 0xC6, CHR 0xC7,
      CHR 0xC8, CHR 0xC9, CHR 0xCA, CHR 0xCB, CHR 0xCC, CHR 0xCD, CHR 0xCE, CHR 0xCF,
      CHR 0xD0, CHR 0xD1, CHR 0xD2, CHR 0xD3, CHR 0xD4, CHR 0xD5, CHR 0xD6,
      CHR 0xD8, CHR 0xD9, CHR 0xDA, CHR 0xDB, CHR 0xDC, CHR 0xDD, CHR 0xDE]"

definition lowercase :: "char list" where
  "lowercase = ''abcdefghijklmnopqrstuvwxyz'' @
     [CHR 0xE0, CHR 0xE1, CHR 0xE2, CHR 0xE3, CHR 0xE4, CHR 0xE5, CHR 0xE6, CHR 0xE7,
      CHR 0xE8, CHR 0xE9, CHR 0xEA, CHR 0xEB, CHR 0xEC, CHR 0xED, CHR 0xEE, CHR 0xEF,
      CHR 0xF0, CHR 0xF1, CHR 0xF2, CHR 0xF3, CHR 0xF4, CHR 0xF5, CHR 0xF6,
      CHR 0xF8, CHR 0xF9, CHR 0xFA, CHR 0xFB, CHR 0xFC, CHR 0xFD, CHR 0xFE]"

definition lower_char :: "char \<Rightarrow> char" where
  "lower_char c = (case map_of (zip uppercase lowercase) c of None \<Rightarrow> c | Some l \<Rightarrow> l)"

text \<open>\<open>s.lower()\<close>\<close>

definition lower :: "string \<Rightarrow> string" where
  "lower s = map lower_char s"

text \<open>\<open>a in s\<close>: the text \<open>a\<close> occurs in \<open>s\<close> as a substring.\<close>

fun occurs_in :: "string \<Rightarrow> string \<Rightarrow> bool" where
  "occurs_in a [] = (a = [])"
| "occurs_in a (c # cs) = (prefix a (c # cs) \<or> occurs_in a cs)"

text \<open>
  \<open>s.replace(old, new)\<close>: every occurrence of \<open>old\<close>, found from the left and not
  overlapping an earlier one, is replaced. With an empty \<open>old\<close>, \<open>new\<close> is put before
  every character and at the end.
\<close>

function replace :: "string \<Rightarrow> string \<Rightarrow> string \<Rightarrow> string" where
  "replace old new [] = (if old = [] then new else [])"
| "replace old new (c # cs) =
     (if old = [] then new @ c # replace old new cs
      else if prefix old (c # cs) then new @ replace old new (drop (length old) (c # cs))
      else c # replace old new cs)"
  by pat_completeness auto
termination
  by (relation "measure (\<lambda>(old, new, s). length s)") (auto simp: Suc_le_eq)

section \<open>The JSON decoder\<close>

text \<open>
  \<open>json.loads\<close> is the standard library's decoder, used by \<open>safe_json_parse\<close> with its
  default settings. The model follows its grammar: the JSON texts of RFC 8259 with the
  decoder's additions \<open>NaN\<close>, \<open>Infinity\<close> and \<open>-Infinity\<close>, surrogate pairs of \<open>\u\<close>
  escapes joined, control characters refused inside strings, a later duplicate key
  replacing the value of the earlier one, and an integer of more than 4300 digits refused
  with \<open>ValueError\<close>.

  The values are the Python objects the decoder builds. \<open>PyNone\<close> is Python's \<open>None\<close>: the
  decoder returns it for the JSON text \<open>null\<close>. A decoded string is the list of its code
  points, since a \<open>\u\<close> escape can denote any of them. A float is kept as the text of its
  literal: its value as a floating point number is not needed here. The text of an
  exception's message is not modelled: an exception is its class.
\<close>

datatype py_value =
    PyNone
  | PyBool bool
  | PyInt int
  | PyFloat string
  | PyStr "int list"
  | PyList "py_value list"
  | PyDict "(int list \<times> py_value) list"

datatype py_exception = JSONDecodeError | ValueError

definition code_points :: "string \<Rightarrow> int list" where
  "code_points s = map of_char s"

definition json_whitespace :: "char list" where
  "json_whitespace = [CHR 0x20, CHR 0x09, CHR 0x0A, CHR 0x0D]"

definition skip_ws :: "string \<Rightarrow> string" where
  "skip_ws s = dropWhile (\<lambda>c. c \<in> set json_whitespace) s"

definition isdigit :: "char \<Rightarrow> bool" where
  "isdigit c = (c \<in> set ''0123456789'')"

definition hex_value :: "char \<Rightarrow> int option" where
  "hex_value c = map_of (zip ''0123456789abcdef'' [0, 1, 2, 3, 4, 5, 6, 7, 8, 9, 10, 11, 12, 13, 14, 15]
     @ zip ''ABCDEF'' [10, 11, 12, 13, 14, 15]) c"

definition hex4 :: "string \<Rightarrow> int option" where
  "hex4 s = (if length s < 4 then None
     else (case those (map hex_value (take 4 s)) of
             None \<Rightarrow> None
           | Some ds \<Rightarrow> Some (foldl (\<lambda>n d. 16 * n + d) 0 ds)))"

definition simple_escape :: "char \<Rightarrow> int option" where
  "simple_escape e = map_of
     [(CHR 0x22, 0x22), (CHR 0x5C, 0x5C), (CHR ''/'', 0x2F), (CHR ''b'', 0x08),
      (CHR ''f'', 0x0C), (CHR ''n'', 0x0A), (CHR ''r'', 0x0D), (CHR ''t'', 0x09)] e"

text \<open>The escape after a backslash: its code point, and the text after it.\<close>

definition decode_escape :: "string \<Rightarrow> py_exception + (int \<times> string)" where
  "decode_escape s =
     (case s of
        [] \<Rightarrow> Inl JSONDecodeError
      | e # rest \<Rightarrow>
          if e = CHR ''u'' then
            (case hex4 rest of
               None \<Rightarrow> Inl JSONDecodeError
             | Some u \<Rightarrow>
                 (let rest1 = drop 4 rest in
                  if 0xD800 \<le> u \<and> u \<le> 0xDBFF \<and> prefix [CHR 0x5C, CHR ''u''] rest1 then
                    (case hex4 (drop 2 rest1) of
                       None \<Rightarrow> Inl JSONDecodeError
                     | Some u2 \<Rightarrow>
                         if 0xDC00 \<le> u2 \<and> u2 \<le> 0xDFFF
                         then Inr (0x10000 + (u - 0xD800) * 0x400 + (u2 - 0xDC00), drop 6 rest1)
                         else Inr (u, rest1))
                  else Inr (u, rest1)))
          else (case simple_escape e of
                  None \<Rightarrow> Inl JSONDecodeError
                | Some n \<Rightarrow> Inr (n, rest)))"

lemma decode_escape_shorter:
  "decode_escape s = Inr (u, rest) \<Longrightarrow> length rest < length s"
  by (auto simp: decode_escape_def Let_def hex4_def split: list.splits option.splits if_splits)

text \<open>The string after an opening quote, up to its closing quote.\<close>

function scanstring :: "int list \<Rightarrow> string \<Rightarrow> py_exception + (int list \<times> string)" where
  "scanstring acc [] = Inl JSONDecodeError"
| "scanstring acc (c # cs) =
     (if c = CHR 0x22 then Inr (acc, cs)
      else if c = CHR 0x5C then
        (case decode_escape cs of
           Inl e \<Rightarrow> Inl e
         | Inr (u, rest) \<Rightarrow> scanstring (acc @ [u]) rest)
      else if (of_char c :: int) < 0x20 then Inl JSONDecodeError
      else scanstring (acc @ [of_char c]) cs)"
  by pat_completeness auto
termination
  by (relation "measure (\<lambda>(acc, s). length s)")
     (auto dest: decode_escape_shorter)

lemma scanstring_shorter:
  "scanstring acc s = Inr (k, rest) \<Longrightarrow> length rest < length s"
proof (induction acc s rule: scanstring.induct)
  case (1 acc)
  then show ?case by simp
next
  case (2 acc c cs)
  show ?case
  proof (cases "c = CHR 0x22")
    case True
    with "2.prems" show ?thesis by simp
  next
    case quote: False
    show ?thesis
    proof (cases "c = CHR 0x5C")
      case True
      with quote "2.prems" obtain u r where
        d: "decode_escape cs = Inr (u, r)" and s: "scanstring (acc @ [u]) r = Inr (k, rest)"
        by (auto split: sum.splits)
      from "2.IH"(1) [OF quote True d refl s] decode_escape_shorter [OF d]
      show ?thesis by simp
    next
      case False
      with quote "2.prems" have c: "\<not> (of_char c :: int) < 0x20"
        and s: "scanstring (acc @ [of_char c]) cs = Inr (k, rest)"
        by (auto split: if_splits)
      from "2.IH"(2) [OF quote False c s] show ?thesis by simp
    qed
  qed
qed

definition digits_value :: "string \<Rightarrow> int" where
  "digits_value ds = foldl (\<lambda>n c. 10 * n + (int (of_char c) - 48)) 0 ds"

text \<open>
  A number is matched as by the decoder's pattern
  \<open>(-?(?:0|[1-9][0-9]*))(\.[0-9]+)?([eE][-+]?[0-9]+)?\<close>: the integer part, then a
  fraction and an exponent where they are complete.
\<close>

definition match_integer :: "string \<Rightarrow> (string \<times> string) option" where
  "match_integer s =
     (let (sign, s1) = (if prefix ''-'' s then (''-'', tl s) else ('''', s)) in
      case s1 of
        [] \<Rightarrow> None
      | c # cs \<Rightarrow>
          if \<not> isdigit c then None
          else if c = CHR ''0'' then Some (sign @ ''0'', cs)
          else Some (sign @ takeWhile isdigit s1, dropWhile isdigit s1))"

definition match_fraction :: "string \<Rightarrow> string \<times> string" where
  "match_fraction s =
     (if prefix ''.'' s \<and> takeWhile isdigit (tl s) \<noteq> []
      then (CHR ''.'' # takeWhile isdigit (tl s), dropWhile isdigit (tl s))
      else ('''', s))"

definition match_exponent :: "string \<Rightarrow> string \<times> string" where
  "match_exponent s =
     (case s of
        [] \<Rightarrow> ('''', s)
      | e # r \<Rightarrow>
          if e = CHR ''e'' \<or> e = CHR ''E'' then
            (let (sg, r') = (if prefix ''+'' r \<or> prefix ''-'' r then ([hd r], tl r) else ('''', r)) in
             if takeWhile isdigit r' \<noteq> []
             then (e # sg @ takeWhile isdigit r', dropWhile isdigit r')
             else ('''', s))
          else ('''', s))"

definition match_number :: "string \<Rightarrow> (string \<times> string \<times> string \<times> string) option" where
  "match_number s =
     (case match_integer s of
        None \<Rightarrow> None
      | Some (integer, s2) \<Rightarrow>
          (let (frac, s3) = match_fraction s2;
               (exp, s4) = match_exponent s3
           in Some (integer, frac, exp, s4)))"

lemma match_integer_shorter:
  "match_integer s = Some (i, rest) \<Longrightarrow> length rest < length s"
proof -
  have d: "length (dropWhile isdigit (c # cs)) \<le> length cs" if "isdigit c" for c cs
    using that by (simp add: length_dropWhile_le)
  assume "match_integer s = Some (i, rest)"
  then show ?thesis
    using d
    by (cases s; cases "tl s")
       (auto simp: match_integer_def Let_def le_imp_less_Suc less_SucI
             split: if_splits list.splits)
qed

lemma match_fraction_length:
  "match_fraction s = (f, rest) \<Longrightarrow> length rest \<le> length s"
  using length_dropWhile_le [of isdigit "tl s"]
  by (cases s) (auto simp: match_fraction_def split: if_splits)

lemma match_exponent_length:
  "match_exponent s = (e, rest) \<Longrightarrow> length rest \<le> length s"
proof (cases s)
  case Nil
  assume "match_exponent s = (e, rest)"
  with Nil show ?thesis by (simp add: match_exponent_def)
next
  case (Cons c r)
  assume m: "match_exponent s = (e, rest)"
  have "length (dropWhile isdigit r) \<le> length r" "length (dropWhile isdigit (tl r)) \<le> length r"
    using length_dropWhile_le [of isdigit "tl r"] length_dropWhile_le [of isdigit r]
    by (cases r; simp)+
  with m Cons show ?thesis
    by (auto simp: match_exponent_def Let_def split: if_splits)
qed

lemma match_number_shorter:
  "match_number s = Some (i, f, e, rest) \<Longrightarrow> length rest < length s"
  by (auto simp: match_number_def Let_def split: option.splits prod.splits
           dest!: match_integer_shorter match_fraction_length match_exponent_length)

text \<open>The tokens of a JSON text. A string, a number or a literal is a value of its own.\<close>

datatype token =
    LBrace | RBrace | LBracket | RBracket | Comma | Colon | Atom py_value

definition punctuation :: "char \<Rightarrow> token option" where
  "punctuation c = map_of
     [(CHR ''{'', LBrace), (CHR ''}'', RBrace), (CHR ''['', LBracket), (CHR '']'', RBracket),
      (CHR '','', Comma), (CHR '':'', Colon)] c"

text \<open>The first of the words that the text starts with: its value, and the text after it.\<close>

definition match_word :: "(string \<times> py_value) list \<Rightarrow> string \<Rightarrow> (py_value \<times> string) option" where
  "match_word ws s =
     (case find (\<lambda>(w, v). prefix w s) ws of
        None \<Rightarrow> None
      | Some (w, v) \<Rightarrow> Some (v, drop (length w) s))"

definition literals :: "(string \<times> py_value) list" where
  "literals = [(''null'', PyNone), (''true'', PyBool True), (''false'', PyBool False)]"

definition constants :: "(string \<times> py_value) list" where
  "constants = [(''NaN'', PyFloat ''nan''), (''Infinity'', PyFloat ''inf''),
     (''-Infinity'', PyFloat ''-inf'')]"

text \<open>
  The value of a matched number: a float when it has a fraction or an exponent, and an
  \<open>int\<close> otherwise, which Python refuses to convert when it has more than 4300 digits.
\<close>

definition number_value :: "string \<Rightarrow> string \<Rightarrow> string \<Rightarrow> py_exception + py_value" where
  "number_value integer frac exp =
     (if frac \<noteq> [] \<or> exp \<noteq> [] then Inr (PyFloat (integer @ frac @ exp))
      else if 4300 < length (filter isdigit integer) then Inl ValueError
      else if prefix ''-'' integer then Inr (PyInt (- digits_value (tl integer)))
      else Inr (PyInt (digits_value integer)))"

text \<open>The next token after any JSON whitespace, and the text after it.\<close>

definition next_token :: "string \<Rightarrow> py_exception + (token \<times> string)" where
  "next_token s =
     (case skip_ws s of
        [] \<Rightarrow> Inl JSONDecodeError
      | c # cs \<Rightarrow>
          if c = CHR 0x22 then
            (case scanstring [] cs of
               Inl e \<Rightarrow> Inl e
             | Inr (k, rest) \<Rightarrow> Inr (Atom (PyStr k), rest))
          else
            (case punctuation c of
               Some t \<Rightarrow> Inr (t, cs)
             | None \<Rightarrow>
                 (case match_word literals (c # cs) of
                    Some (v, rest) \<Rightarrow> Inr (Atom v, rest)
                  | None \<Rightarrow>
                      (case match_number (c # cs) of
                         Some (integer, frac, exp, rest) \<Rightarrow>
                           (case number_value integer frac exp of
                              Inl e \<Rightarrow> Inl e
                            | Inr v \<Rightarrow> Inr (Atom v, rest))
                       | None \<Rightarrow>
                           (case match_word constants (c # cs) of
                              Some (v, rest) \<Rightarrow> Inr (Atom v, rest)
                            | None \<Rightarrow> Inl JSONDecodeError)))))"

lemma skip_ws_length: "length (skip_ws s) \<le> length s"
  by (simp add: skip_ws_def length_dropWhile_le)

lemma match_word_shorter:
  assumes "match_word ws s = Some (v, rest)" and "[] \<notin> fst ` set ws"
  shows "length rest < length s"
proof -
  from assms(1) obtain w where f: "find (\<lambda>(w, v). prefix w s) ws = Some (w, v)"
    and r: "rest = drop (length w) s"
    by (auto simp: match_word_def split: option.splits)
  from f have "(w, v) \<in> set ws" and p: "prefix w s"
    by (auto simp: find_Some_iff in_set_conv_nth)
  with assms(2) have "w \<noteq> []" by force
  with p r show ?thesis
    by (cases s) (auto simp: prefix_def)
qed

lemma next_token_shorter:
  assumes "next_token s = Inr (t, rest)"
  shows "length rest < length s"
proof -
  from assms obtain c cs where w: "skip_ws s = c # cs"
    by (auto simp: next_token_def split: list.splits)
  have l: "[] \<notin> fst ` set literals" and k: "[] \<notin> fst ` set constants"
    by (simp_all add: literals_def constants_def)
  have "length rest < length (c # cs)"
  proof (cases "c = CHR 0x22")
    case True
    with assms w show ?thesis
      by (auto simp: next_token_def split: sum.splits dest!: scanstring_shorter)
  next
    case False
    with assms w show ?thesis
      by (auto simp: next_token_def split: sum.splits option.splits
               dest!: match_number_shorter match_word_shorter [OF _ l] match_word_shorter [OF _ k])
  qed
  with skip_ws_length [of s] w show ?thesis
    by simp
qed

text \<open>
  The decoder reads the tokens from the left and keeps the containers that are still open:
  an array with the elements read so far, an object with its members, and an object
  whose next member has its key and waits for the value.
\<close>

datatype frame =
    InArray "py_value list"
  | InObject "(int list \<times> py_value) list"
  | InMember "(int list \<times> py_value) list" "int list"

datatype mode = ExpectValue | ExpectValueOrClose | ExpectKey | ExpectKeyOrClose
  | ExpectColon | ExpectCommaOrClose

datatype progress = Done py_value | Continue mode "frame list"

text \<open>
  A value is complete: it is the whole document, the next element of the innermost open
  array, or the value of the pending key of the innermost open object (where a key read
  before keeps its place and takes the new value, as in a \<open>dict\<close>).
\<close>

fun complete :: "py_value \<Rightarrow> frame list \<Rightarrow> py_exception + progress" where
  "complete v [] = Inr (Done v)"
| "complete v (InArray vs # st) = Inr (Continue ExpectCommaOrClose (InArray (vs @ [v]) # st))"
| "complete v (InMember kvs k # st) =
     Inr (Continue ExpectCommaOrClose (InObject (AList.update k v kvs) # st))"
| "complete v (InObject kvs # st) = Inl JSONDecodeError"

text \<open>An array is opened, an object is opened, or a value is complete.\<close>

definition begin_value :: "frame list \<Rightarrow> token \<Rightarrow> py_exception + progress" where
  "begin_value st t =
     (case t of
        Atom v \<Rightarrow> complete v st
      | LBracket \<Rightarrow> Inr (Continue ExpectValueOrClose (InArray [] # st))
      | LBrace \<Rightarrow> Inr (Continue ExpectKeyOrClose (InObject [] # st))
      | _ \<Rightarrow> Inl JSONDecodeError)"

text \<open>The key of the next member of the innermost open object.\<close>

definition begin_member :: "frame list \<Rightarrow> token \<Rightarrow> py_exception + progress" where
  "begin_member st t =
     (case (st, t) of
        (InObject kvs # st', Atom (PyStr k)) \<Rightarrow> Inr (Continue ExpectColon (InMember kvs k # st'))
      | _ \<Rightarrow> Inl JSONDecodeError)"

text \<open>The innermost open container is closed, or goes on after a comma.\<close>

definition close_or_comma :: "frame list \<Rightarrow> token \<Rightarrow> py_exception + progress" where
  "close_or_comma st t =
     (case (st, t) of
        (InArray vs # st', Comma) \<Rightarrow> Inr (Continue ExpectValue st)
      | (InArray vs # st', RBracket) \<Rightarrow> complete (PyList vs) st'
      | (InObject kvs # st', Comma) \<Rightarrow> Inr (Continue ExpectKey st)
      | (InObject kvs # st', RBrace) \<Rightarrow> complete (PyDict kvs) st'
      | _ \<Rightarrow> Inl JSONDecodeError)"

definition step :: "mode \<Rightarrow> frame list \<Rightarrow> token \<Rightarrow> py_exception + progress" where
  "step m st t =
     (case m of
        ExpectValue \<Rightarrow> begin_value st t
      | ExpectValueOrClose \<Rightarrow> (if t = RBracket then close_or_comma st t else begin_value st t)
      | ExpectKey \<Rightarrow> begin_member st t
      | ExpectKeyOrClose \<Rightarrow> (if t = RBrace then close_or_comma st t else begin_member st t)
      | ExpectColon \<Rightarrow> (if t = Colon then Inr (Continue ExpectValue st) else Inl JSONDecodeError)
      | ExpectCommaOrClose \<Rightarrow> close_or_comma st t)"

text \<open>One value: the tokens are read until the value that was started is complete.\<close>

function scan_once :: "mode \<Rightarrow> frame list \<Rightarrow> string \<Rightarrow> py_exception + (py_value \<times> string)" where
  "scan_once m st s =
     (case next_token s of
        Inl e \<Rightarrow> Inl e
      | Inr (t, rest) \<Rightarrow>
          (case step m st t of
             Inl e \<Rightarrow> Inl e
           | Inr (Done v) \<Rightarrow> Inr (v, rest)
           | Inr (Continue m' st') \<Rightarrow> scan_once m' st' rest))"
  by pat_completeness auto
termination
  by (relation "measure (\<lambda>(m, st, s). length s)") (auto dest: next_token_shorter)

declare scan_once.simps [simp del]

text \<open>\<open>json.loads(s)\<close>: one value, with nothing but whitespace after it.\<close>

definition json_loads :: "string \<Rightarrow> py_exception + py_value" where
  "json_loads s =
     (case scan_once ExpectValue [] s of
        Inl e \<Rightarrow> Inl e
      | Inr (v, rest) \<Rightarrow> if skip_ws rest = [] then Inr v else Inl JSONDecodeError)"

section \<open>The structured-output parser\<close>

text \<open>
  The text that \<open>safe_json_parse\<close> hands to the decoder (its variable \<open>cleaned\<close>): the
  stripped text, and when that starts with three backticks, the stripped text without any
  \<open>```json\<close> and then without any \<open>```\<close>, stripped again.
\<close>

definition remove_fences :: "string \<Rightarrow> string" where
  "remove_fences cleaned =
     (if prefix ''```'' cleaned
      then strip (replace ''```'' '''' (replace ''```json'' '''' cleaned))
      else cleaned)"

definition cleaned_text :: "string \<Rightarrow> string" where
  "cleaned_text text = remove_fences (strip text)"

text \<open>
  \<open>safe_json_parse(text)\<close> returns the pair \<open>(data, error_message)\<close>. Every exception of
  the decoder is caught: the pair is then \<open>None\<close> and the exception's message, which is
  modelled by the exception.
\<close>

definition safe_json_parse :: "string \<Rightarrow> py_value \<times> py_exception option" where
  "safe_json_parse text =
     (case json_loads (cleaned_text text) of
        Inr data \<Rightarrow> (data, None)
      | Inl e \<Rightarrow> (PyNone, Some e))"

section \<open>The generation service\<close>

text \<open>
  \<open>mistral_call\<close> sends one message to the chat completion service and returns the text of
  the first choice. The service is outside the program: it is a parameter of the model. Its
  answer may depend on the model name, on the message and on how many calls came before;
  \<open>Failed\<close> stands for a call that ends in an exception. The record counts the calls, so
  that a theorem can say how often the service was invoked.
\<close>

datatype failure = Failed

record service =
  respond :: "nat \<Rightarrow> string \<Rightarrow> string \<Rightarrow> failure + string"
  calls :: nat

definition mistral_call :: "string \<Rightarrow> service \<Rightarrow> (failure + string) \<times> service" where
  "mistral_call user_message sv =
     (respond sv (calls sv) ''mistral-large-latest'' user_message, sv\<lparr>calls := Suc (calls sv)\<rparr>)"

section \<open>The prompts\<close>

text \<open>\<open>CLASSIFY_PROMPT.format(inquiry=inquiry)\<close> of \<open>llms.py\<close>.\<close>

definition CLASSIFY_PROMPT :: "string \<Rightarrow> string" where
  "CLASSIFY_PROMPT inquiry =
     ''\<newline>'' @
     ''You are a bank customer service bot.\<newline>'' @
     ''Your task is to assess customer intent and categorize customer\<newline>'' @
     ''inquiry after <<<>>> into one of the following predefined categories:\<newline>'' @
     ''card arrival\<newline>'' @
     ''change pin\<newline>'' @
     ''exchange rate\<newline>'' @
     ''country support\<newline>'' @
     ''cancel transfer\<newline>'' @
     ''charge dispute\<newline>'' @
     ''If the text doesn't fit into any of the above categories,\<newline>'' @
     ''classify it as:\<newline>'' @
     ''customer service\<newline>'' @
     ''You will only respond with the predefined category.\<newline>'' @
     ''Do not provide explanations or notes.\<newline>'' @
     ''###\<newline>'' @
     ''Here are some examples:\<newline>'' @
     ''Inquiry: How do I know if I will get my card, or if it is lost? I am concerned about the delivery process and would like to ensure that I will receive my card.\<newline>'' @
     ''Category: card arrival\<newline>'' @
     ''Inquiry: I am planning an international trip to Paris and would like to inquire about the current exchange rates for Euros as well as any associated fees for currency exchange.\<newline>'' @
     ''Category: exchange rate\<newline>'' @
     ''Inquiry: What countries are getting support? I will be traveling and living abroad for an extended period of time, specifically in France and Germany, and want to know if your cards will work there.\<newline>'' @
     ''Category: country support\<newline>'' @
     ''Inquiry: Can I get help starting my computer? I am having difficulty starting my computer.\<newline>'' @
     ''Category: customer service\<newline>'' @
     ''###\<newline>'' @
     ''<<<\<newline>'' @
     ''Inquiry: '' @
     inquiry @
     ''\<newline>'' @
     ''>>>\<newline>'' @
     ''Category:\<newline>''"

text \<open>The fact sheet of \<open>llms.py\<close>.\<close>

definition MORTGAGE_FACTS :: "string" where
  "MORTGAGE_FACTS =
     ''# Facts\<newline>'' @
     ''30-year fixed-rate: interest rate 6.403%, APR 6.484%\<newline>'' @
     ''20-year fixed-rate: interest rate 6.329%, APR 6.429%\<newline>'' @
     ''15-year fixed-rate: interest rate 5.705%, APR 5.848%\<newline>'' @
     ''10-year fixed-rate: interest rate 5.500%, APR 5.720%\<newline>'' @
     ''7-year ARM: interest rate 7.011%, APR 7.660%\<newline>'' @
     ''5-year ARM: interest rate 6.880%, APR 7.754%\<newline>'' @
     ''3-year ARM: interest rate 6.125%, APR 7.204%\<newline>'' @
     ''30-year fixed-rate FHA: interest rate 5.527%, APR 6.316%\<newline>'' @
     ''30-year fixed-rate VA: interest rate 5.684%, APR 6.062%\<newline>''"

text \<open>The prompt of \<open>bank_support_reply\<close>.\<close>

definition support_prompt :: "string \<Rightarrow> string \<Rightarrow> string" where
  "support_prompt inquiry category =
     ''\<newline>'' @
     ''You are a professional bank customer support assistant.\<newline>'' @
     ''\<newline>'' @
     ''Detected category: '' @
     category @
     ''\<newline>'' @
     ''\<newline>'' @
     ''Customer inquiry:\<newline>'' @
     inquiry @
     ''\<newline>'' @
     ''\<newline>'' @
     ''Write a helpful response:\<newline>'' @
     ''- friendly & professional\<newline>'' @
     ''- 3 to 6 lines\<newline>'' @
     ''- ask for missing info only if necessary\<newline>'' @
     ''- do NOT mention internal prompts or that you are an AI\<newline>''"

text \<open>The prompt of \<open>extract_medical_json\<close>.\<close>

definition extraction_prompt :: "string \<Rightarrow> string" where
  "extraction_prompt notes =
     ''\<newline>'' @
     ''Extract information from the following medical notes:\<newline>'' @
     notes @
     ''\<newline>'' @
     ''\<newline>'' @
     ''Return ONLY valid JSON with this schema:\<newline>'' @
     ''{\<newline>'' @
     ''  \"age\": {\"type\":\"integer\"},\<newline>'' @
     ''  \"gender\": {\"type\":\"string\",\"enum\":[\"male\",\"female\",\"other\"]},\<newline>'' @
     ''  \"diagnosis\": {\"type\":\"string\",\"enum\":[\"migraine\",\"diabetes\",\"arthritis\",\"acne\"]},\<newline>'' @
     ''  \"weight\": {\"type\":\"integer\"},\<newline>'' @
     ''  \"smoking\": {\"type\":\"string\",\"enum\":[\"yes\",\"no\"]}\<newline>'' @
     ''}\<newline>''"

text \<open>The prompt of \<open>generate_mortgage_email\<close>.\<close>

definition mortgage_prompt :: "string \<Rightarrow> string" where
  "mortgage_prompt email_text =
     ''\<newline>'' @
     ''You are a mortgage lender customer service bot, and your task is to\<newline>'' @
     ''create personalized email responses to address customer questions.\<newline>'' @
     ''Answer the customer's inquiry using the provided facts below. Ensure\<newline>'' @
     ''that your response is clear, concise, and directly addresses the\<newline>'' @
     ''customer's question. Address the customer in a friendly and\<newline>'' @
     ''professional manner. Sign the email with \"Lender Customer Support.\"\<newline>'' @
     ''\<newline>'' @
     MORTGAGE_FACTS @
     ''\<newline>'' @
     ''\<newline>'' @
     ''# Email\<newline>'' @
     email_text @
     ''\<newline>''"

text \<open>The prompt of \<open>summarize_newsletter\<close>.\<close>

definition summary_prompt :: "string \<Rightarrow> string" where
  "summary_prompt newsletter =
     ''\<newline>'' @
     ''You are a commentator. Your task is to write a report on a newsletter.\<newline>'' @
     ''When presented with the newsletter, come up with interesting questions to ask,\<newline>'' @
     ''and answer each question.\<newline>'' @
     ''Afterward, combine all the information and write a report in the markdown\<newline>'' @
     ''format.\<newline>'' @
     ''\<newline>'' @
     ''# Newsletter:\<newline>'' @
     newsletter @
     ''\<newline>'' @
     ''\<newline>'' @
     ''# Instructions:\<newline>'' @
     ''## Summarize:\<newline>'' @
     ''In clear and concise language, summarize the key points and themes\<newline>'' @
     ''presented in the newsletter.\<newline>'' @
     ''## Interesting Questions:\<newline>'' @
     ''Generate three distinct and thought-provoking questions that can be\<newline>'' @
     ''asked about the content of the newsletter. For each question:\<newline>'' @
     ''- After \"Q: \", describe the problem\<newline>'' @
     ''- After \"A: \", provide a detailed explanation of the problem addressed\<newline>'' @
     ''in the question.\<newline>'' @
     ''- Enclose the ultimate answer in <>.\<newline>'' @
     ''## Write an analysis report\<newline>'' @
     ''Using the summary and the answers to the interesting questions,\<newline>'' @
     ''create a comprehensive report in Markdown format.\<newline>''"

text \<open>\<open>CLASSIFY_PROMPT.format(inquiry=inquiry)\<close> of \<open>api.py\<close>.\<close>

definition API_CLASSIFY_PROMPT :: "string \<Rightarrow> string" where
  "API_CLASSIFY_PROMPT inquiry =
     ''\<newline>'' @
     ''You are a bank customer service bot.\<newline>'' @
     ''Classify the inquiry into ONE of:\<newline>'' @
     ''card arrival\<newline>'' @
     ''change pin\<newline>'' @
     ''exchange rate\<newline>'' @
     ''country support\<newline>'' @
     ''cancel transfer\<newline>'' @
     ''charge dispute\<newline>'' @
     ''customer service\<newline>'' @
     ''\<newline>'' @
     ''Only return the category name.\<newline>'' @
     ''\<newline>'' @
     ''Inquiry: '' @
     inquiry @
     ''\<newline>'' @
     ''Category:\<newline>''"

text \<open>The prompt of \<open>generate_support_reply\<close> of \<open>api.py\<close>.\<close>

definition api_support_prompt :: "string \<Rightarrow> string \<Rightarrow> string" where
  "api_support_prompt inquiry category =
     ''\<newline>'' @
     ''You are a professional bank customer support assistant.\<newline>'' @
     ''\<newline>'' @
     ''Detected category: '' @
     category @
     ''\<newline>'' @
     ''\<newline>'' @
     ''Customer inquiry:\<newline>'' @
     inquiry @
     ''\<newline>'' @
     ''\<newline>'' @
     ''Write a helpful response in 3 to 6 lines.\<newline>''"

section \<open>The operations of \<open>llms.py\<close>\<close>

text \<open>
  The set literal \<open>allowed\<close> of \<open>classify_inquiry\<close>, and the order in which the literal
  lists its members.
\<close>

definition allowed :: "string set" where
  "allowed = {''card arrival'', ''change pin'', ''exchange rate'', ''country support'',
     ''cancel transfer'', ''charge dispute'', ''customer service''}"

definition declaration_order :: "string list" where
  "declaration_order = [''card arrival'', ''change pin'', ''exchange rate'', ''country support'',
     ''cancel transfer'', ''charge dispute'', ''customer service'']"

text \<open>
  \<open>for a in allowed\<close> visits every member of the set once, in the order of the set's hash
  table. Python does not fix that order for a set of strings (string hashes differ from one
  interpreter process to the next), so the order is a parameter of the model: any list
  of the members without repetition.
\<close>

definition iteration_order :: "string list \<Rightarrow> bool" where
  "iteration_order order = (distinct order \<and> set order = allowed)"

text \<open>
  The loop of \<open>classify_inquiry\<close> with the \<open>return\<close> after it: the first member visited
  that occurs in \<open>out\<close>, and \<open>customer service\<close> when none does.
\<close>

fun first_match :: "string list \<Rightarrow> string \<Rightarrow> string" where
  "first_match [] out = ''customer service''"
| "first_match (a # as) out = (if occurs_in a out then a else first_match as out)"

definition classify_inquiry :: "string list \<Rightarrow> string \<Rightarrow> service \<Rightarrow> (failure + string) \<times> service" where
  "classify_inquiry order inquiry sv =
     (case mistral_call (CLASSIFY_PROMPT inquiry) sv of
        (Inl e, sv') \<Rightarrow> (Inl e, sv')
      | (Inr text, sv') \<Rightarrow> (Inr (first_match order (lower (strip text))), sv'))"

definition bank_support_reply :: "string \<Rightarrow> string \<Rightarrow> service \<Rightarrow> (failure + string) \<times> service" where
  "bank_support_reply inquiry category sv =
     (case mistral_call (support_prompt inquiry category) sv of
        (Inl e, sv') \<Rightarrow> (Inl e, sv')
      | (Inr text, sv') \<Rightarrow> (Inr (strip text), sv'))"

text \<open>\<open>extract_medical_json\<close> returns the triple \<open>(raw, data, err)\<close>.\<close>

definition extract_medical_json ::
  "string \<Rightarrow> service \<Rightarrow> (failure + (string \<times> py_value \<times> py_exception option)) \<times> service" where
  "extract_medical_json notes sv =
     (case mistral_call (extraction_prompt notes) sv of
        (Inl e, sv') \<Rightarrow> (Inl e, sv')
      | (Inr text, sv') \<Rightarrow>
          (let raw = strip text; (data, err) = safe_json_parse raw
           in (Inr (raw, data, err), sv')))"

definition generate_mortgage_email :: "string \<Rightarrow> service \<Rightarrow> (failure + string) \<times> service" where
  "generate_mortgage_email email_text sv =
     (case mistral_call (mortgage_prompt email_text) sv of
        (Inl e, sv') \<Rightarrow> (Inl e, sv')
      | (Inr text, sv') \<Rightarrow> (Inr (strip text), sv'))"

definition summarize_newsletter :: "string \<Rightarrow> service \<Rightarrow> (failure + string) \<times> service" where
  "summarize_newsletter newsletter sv =
     (case mistral_call (summary_prompt newsletter) sv of
        (Inl e, sv') \<Rightarrow> (Inl e, sv')
      | (Inr text, sv') \<Rightarrow> (Inr (strip text), sv'))"

section \<open>The callers in \<open>llms.py\<close>\<close>

text \<open>
  Each tab of the page runs its operation when its button is pressed: a blank text gives a
  warning, an exception of the operation gives the error box, and a result is shown.
\<close>

datatype 'a shown = Warning string | ErrorCalling | Shown 'a

definition chatbot_tab ::
  "string list \<Rightarrow> string \<Rightarrow> service \<Rightarrow> (string \<times> string) shown \<times> service" where
  "chatbot_tab order user_msg sv =
     (if strip user_msg = [] then (Warning ''Please type a message.'', sv)
      else
        (case classify_inquiry order user_msg sv of
           (Inl e, sv1) \<Rightarrow> (ErrorCalling, sv1)
         | (Inr cat, sv1) \<Rightarrow>
             (case bank_support_reply user_msg cat sv1 of
                (Inl e, sv2) \<Rightarrow> (ErrorCalling, sv2)
              | (Inr reply, sv2) \<Rightarrow> (Shown (cat, reply), sv2))))"

definition classification_tab :: "string list \<Rightarrow> string \<Rightarrow> service \<Rightarrow> string shown \<times> service" where
  "classification_tab order inquiry sv =
     (if strip inquiry = [] then (Warning ''Please enter an inquiry.'', sv)
      else
        (case classify_inquiry order inquiry sv of
           (Inl e, sv') \<Rightarrow> (ErrorCalling, sv')
         | (Inr cat, sv') \<Rightarrow> (Shown cat, sv')))"

definition extraction_tab ::
  "string \<Rightarrow> service \<Rightarrow> (string \<times> py_value \<times> py_exception option) shown \<times> service" where
  "extraction_tab notes sv =
     (if strip notes = [] then (Warning ''Please enter notes.'', sv)
      else
        (case extract_medical_json notes sv of
           (Inl e, sv') \<Rightarrow> (ErrorCalling, sv')
         | (Inr result, sv') \<Rightarrow> (Shown result, sv')))"

definition email_tab :: "string \<Rightarrow> service \<Rightarrow> string shown \<times> service" where
  "email_tab email_text sv =
     (if strip email_text = [] then (Warning ''Please enter an email.'', sv)
      else
        (case generate_mortgage_email email_text sv of
           (Inl e, sv') \<Rightarrow> (ErrorCalling, sv')
         | (Inr reply, sv') \<Rightarrow> (Shown reply, sv')))"

definition summarization_tab :: "string \<Rightarrow> service \<Rightarrow> string shown \<times> service" where
  "summarization_tab newsletter sv =
     (if strip newsletter = [] then (Warning ''Please enter text.'', sv)
      else
        (case summarize_newsletter newsletter sv of
           (Inl e, sv') \<Rightarrow> (ErrorCalling, sv')
         | (Inr report_md, sv') \<Rightarrow> (Shown report_md, sv')))"

section \<open>The operations of \<open>api.py\<close>\<close>

definition api_classify_inquiry :: "string list \<Rightarrow> string \<Rightarrow> service \<Rightarrow> (failure + string) \<times> service" where
  "api_classify_inquiry order inquiry sv =
     (case mistral_call (API_CLASSIFY_PROMPT inquiry) sv of
        (Inl e, sv') \<Rightarrow> (Inl e, sv')
      | (Inr text, sv') \<Rightarrow> (Inr (first_match order (lower (strip text))), sv'))"

definition generate_support_reply :: "string \<Rightarrow> string \<Rightarrow> service \<Rightarrow> (failure + string) \<times> service" where
  "generate_support_reply inquiry category sv =
     (case mistral_call (api_support_prompt inquiry category) sv of
        (Inl e, sv') \<Rightarrow> (Inl e, sv')
      | (Inr text, sv') \<Rightarrow> (Inr (strip text), sv'))"

text \<open>
  What \<open>chat\<close> reads of a request. \<open>request.get_json(silent=True)\<close> is \<open>None\<close> when the
  body is not JSON (\<open>NoJson\<close>), a JSON object (\<open>JsonObject\<close>, with what its entry
  \<open>"message"\<close> holds), or another JSON value, which Python takes as false
  (\<open>FalsyJson\<close>: \<open>null\<close>, \<open>false\<close>, zero, an empty string or array) or as true
  (\<open>OtherJson\<close>). The entry \<open>"message"\<close> is missing, a string, or another value that
  Python takes as false or as true.
\<close>

datatype message_entry = NoMessage | FalsyMessage | TextMessage string | OtherMessage

datatype request_json = NoJson | FalsyJson | JsonObject message_entry | OtherJson

record chat_reply =
  reply_message :: string
  reply_category :: string
  reply_text :: string

text \<open>
  The response of \<open>chat\<close>: status 400 with an error text, status 200 with the reply, or
  status 500 when the handler ends in an exception.
\<close>

datatype response = BadRequest string | Ok chat_reply | InternalServerError

text \<open>
  \<open>data = request.get_json(silent=True) or {}\<close> and
  \<open>message = (data.get("message") or "").strip()\<close>: a value that is true and not an
  object has no \<open>get\<close>, and an entry that is true and not a string has no \<open>strip\<close>; both
  end in \<open>AttributeError\<close>.
\<close>

definition requested_message :: "request_json \<Rightarrow> string option" where
  "requested_message body =
     (case body of
        OtherJson \<Rightarrow> None
      | JsonObject OtherMessage \<Rightarrow> None
      | JsonObject (TextMessage s) \<Rightarrow> Some (strip s)
      | _ \<Rightarrow> Some (strip ''''))"

definition chat :: "string list \<Rightarrow> request_json \<Rightarrow> service \<Rightarrow> response \<times> service" where
  "chat order body sv =
     (case requested_message body of
        None \<Rightarrow> (InternalServerError, sv)
      | Some msg \<Rightarrow>
          if msg = [] then (BadRequest ''message is required'', sv)
          else
            (case api_classify_inquiry order msg sv of
               (Inl e, sv1) \<Rightarrow> (InternalServerError, sv1)
             | (Inr cat, sv1) \<Rightarrow>
                 (case generate_support_reply msg cat sv1 of
                    (Inl e, sv2) \<Rightarrow> (InternalServerError, sv2)
                  | (Inr r, sv2) \<Rightarrow>
                      (Ok \<lparr>reply_message = msg, reply_category = cat, reply_text = r\<rparr>, sv2))))"

section \<open>Notions of the specification\<close>

text \<open>A text has no leading or trailing whitespace.\<close>

definition trimmed :: "string \<Rightarrow> bool" where
  "trimmed t = (case t of [] \<Rightarrow> True | c # cs \<Rightarrow> \<not> isspace c \<and> \<not> isspace (last t))"

text \<open>
  A payload wrapped in markdown fences: the opening fence with its language tag on a line
  of its own, the payload, and the closing fence on a line of its own.
\<close>

definition fenced :: "string \<Rightarrow> string \<Rightarrow> string" where
  "fenced tag payload = ''```'' @ tag @ ''\<newline>'' @ payload @ ''\<newline>```''"

text \<open>
  A generation service for tests: it answers every call with the same text, and no call
  has been made yet.
\<close>

definition always :: "string \<Rightarrow> service" where
  "always text = \<lparr>respond = (\<lambda>n model_name user_message. Inr text), calls = 0\<rparr>"

section \<open>Facts about the string operations\<close>

lemma occurs_in_sublist: "occurs_in a s = sublist a s"
  by (induction s) (auto simp: sublist_Cons_right)

lemma rstrip_append: "rstrip t @ rev (takeWhile isspace (rev t)) = t"
proof -
  have "rstrip t @ rev (takeWhile isspace (rev t))
      = rev (takeWhile isspace (rev t) @ dropWhile isspace (rev t))"
    unfolding rstrip_def rev_append ..
  then show ?thesis by simp
qed

lemma rstrip_last: "rstrip t \<noteq> [] \<Longrightarrow> \<not> isspace (last (rstrip t))"
  using hd_dropWhile [of isspace "rev t"]
  by (simp add: rstrip_def last_rev)

lemma rstrip_hd:
  assumes "t \<noteq> []" and "\<not> isspace (hd t)"
  shows "rstrip t \<noteq> [] \<and> hd (rstrip t) = hd t"
proof -
  have n: "rstrip t \<noteq> []"
  proof
    assume "rstrip t = []"
    then have "\<forall>c\<in>set t. isspace c"
      by (simp add: rstrip_def dropWhile_eq_Nil_conv)
    with assms show False by (cases t) auto
  qed
  from hd_append2 [OF n, of "rev (takeWhile isspace (rev t))"]
  have "hd (rstrip t) = hd t"
    by (simp only: rstrip_append)
  with n show ?thesis by simp
qed

lemma trimmed_strip: "trimmed (strip s)"
proof (cases "lstrip s = []")
  case True
  then show ?thesis by (simp add: strip_def rstrip_def trimmed_def)
next
  case False
  then have h: "\<not> isspace (hd (lstrip s))"
    by (simp add: lstrip_def hd_dropWhile)
  from rstrip_hd [OF False h] rstrip_last [of "lstrip s"] h
  show ?thesis
    by (cases "rstrip (lstrip s)") (auto simp: strip_def trimmed_def)
qed

lemma strip_trimmed: "trimmed t \<Longrightarrow> strip t = t"
proof (cases t)
  case Nil
  then show ?thesis by (simp add: strip_def lstrip_def rstrip_def)
next
  case (Cons c cs)
  assume "trimmed t"
  with Cons have c: "\<not> isspace c" and l: "\<not> isspace (last t)"
    by (simp_all add: trimmed_def)
  from c Cons have "lstrip t = t" by (simp add: lstrip_def)
  moreover have "rstrip t = t"
  proof -
    from l have "dropWhile isspace (rev t) = rev t"
      by (simp add: dropWhile_eq_self_iff hd_rev)
    then show ?thesis by (simp add: rstrip_def)
  qed
  ultimately show ?thesis by (simp add: strip_def)
qed

lemma strip_idem: "strip (strip s) = strip s"
  by (rule strip_trimmed [OF trimmed_strip])

lemma strip_padded:
  assumes a: "\<forall>c\<in>set a. isspace c" and b: "\<forall>c\<in>set b. isspace c"
  shows "strip (a @ s @ b) = strip s"
proof -
  have l: "lstrip (a @ u) = lstrip u" for u
    unfolding lstrip_def using a by (intro dropWhile_append2) simp
  have r: "rstrip (u @ b) = rstrip u" for u
  proof -
    have "dropWhile isspace (rev b @ rev u) = dropWhile isspace (rev u)"
      using b by (intro dropWhile_append2) simp
    then show ?thesis by (simp add: rstrip_def)
  qed
  have e: "lstrip b = []"
    using b by (simp add: lstrip_def)
  show ?thesis
  proof (cases "\<forall>c\<in>set s. isspace c")
    case True
    then have "lstrip (s @ b) = []" "lstrip s = []"
      using e by (simp_all add: lstrip_def dropWhile_append)
    then show ?thesis by (simp add: strip_def l)
  next
    case False
    then have "lstrip (s @ b) = lstrip s @ b"
      by (auto simp: lstrip_def dropWhile_append)
    then show ?thesis by (simp add: strip_def l r)
  qed
qed

lemma replace_no_occurrence:
  "old \<noteq> [] \<Longrightarrow> \<not> sublist old s \<Longrightarrow> replace old new s = s"
  by (induction s) (auto simp: sublist_Cons_right)

lemma prefix_past:
  assumes "prefix old (u @ c # t)" and "c \<notin> set old"
  shows "prefix old u"
proof -
  from assms(1) consider "prefix old u" | us where "old = u @ us" "prefix us (c # t)"
    by (auto simp: prefix_append)
  then show ?thesis
  proof cases
    case 1
    then show ?thesis .
  next
    case 2
    with assms(2) have "us = []" by (cases us) auto
    with 2 show ?thesis by simp
  qed
qed

lemma replace_past:
  assumes "old \<noteq> []" and "c \<notin> set old" and "\<not> sublist old s"
  shows "replace old new (s @ c # t) = s @ c # replace old new t"
  using assms(3)
proof (induction s)
  case Nil
  from assms(1,2) have "\<not> prefix old (c # t)"
    by (cases old) auto
  with assms(1) show ?case by simp
next
  case (Cons x xs)
  then have p: "\<not> prefix old (x # xs)" and s: "\<not> sublist old xs"
    by (simp_all add: sublist_Cons_right)
  from p prefix_past [of old "x # xs" c t, OF _ assms(2)]
  have "\<not> prefix old ((x # xs) @ c # t)" by blast
  with assms(1) Cons.IH [OF s] show ?case by simp
qed

lemma sublist_Cons_other:
  "a \<notin> set old \<Longrightarrow> old \<noteq> [] \<Longrightarrow> sublist old (a # s) = sublist old s"
  by (cases old) (auto simp: sublist_Cons_right)

lemma sublist_snoc_other:
  "b \<notin> set old \<Longrightarrow> old \<noteq> [] \<Longrightarrow> sublist old (s @ [b]) = sublist old s"
  by (cases old rule: rev_cases) (auto simp: sublist_snoc suffix_def)

lemma sublist_strip: "sublist (strip s) s"
proof -
  have "s = takeWhile isspace s @ lstrip s"
    by (simp add: lstrip_def)
  also have "lstrip s = strip s @ rev (takeWhile isspace (rev (lstrip s)))"
    by (simp add: strip_def rstrip_append)
  finally have "s = takeWhile isspace s @ strip s @ rev (takeWhile isspace (rev (lstrip s)))" .
  then show ?thesis
    by (metis sublist_appendI)
qed

lemma replace_at_occurrence:
  "prefix old s \<Longrightarrow> old \<noteq> [] \<Longrightarrow>
   replace old new s = new @ replace old new (drop (length old) s)"
  by (cases s) auto

lemma replace_at_other:
  "\<not> prefix old (c # cs) \<Longrightarrow> old \<noteq> [] \<Longrightarrow>
   replace old new (c # cs) = c # replace old new cs"
  by simp

lemma replace_starts_one:
  "prefix [b] (replace [b, b, b] [] s) \<Longrightarrow> prefix [b] s"
  by (cases s) (auto split: if_splits)

lemma replace_starts_two:
  assumes "prefix [b, b] (replace [b, b, b] [] s)"
  shows "prefix [b, b] s"
proof (cases "prefix [b, b, b] s")
  case True
  have "prefix [b, b] [b, b, b]" by simp
  from prefix_order.trans [OF this True] show ?thesis .
next
  case False
  show ?thesis
  proof (cases s)
    case Nil
    with assms show ?thesis by simp
  next
    case (Cons c cs)
    from False have "\<not> prefix [b, b, b] (c # cs)" unfolding Cons .
    then have "replace [b, b, b] [] (c # cs) = c # replace [b, b, b] [] cs"
      by (rule replace_at_other) simp
    with assms have "prefix [b, b] (c # replace [b, b, b] [] cs)"
      unfolding Cons by (simp only:)
    then have "c = b" and "prefix [b] (replace [b, b, b] [] cs)"
      by auto
    from this(1) replace_starts_one [OF this(2)] show ?thesis
      unfolding Cons by simp
  qed
qed

lemma replace_three: "\<not> sublist [b, b, b] (replace [b, b, b] [] s)"
proof (induction s rule: length_induct)
  case (1 s)
  show ?case
  proof (cases s)
    case Nil
    then show ?thesis by simp
  next
    case (Cons c cs)
    show ?thesis
    proof (cases "prefix [b, b, b] s")
      case True
      then have "replace [b, b, b] [] s = [] @ replace [b, b, b] [] (drop (length [b, b, b]) s)"
        by (rule replace_at_occurrence) simp
      moreover from Cons have "length (drop (length [b, b, b]) s) < length s" by simp
      ultimately show ?thesis using 1 by simp
    next
      case False
      then have p: "\<not> prefix [b, b, b] (c # cs)" unfolding Cons .
      then have r: "replace [b, b, b] [] (c # cs) = c # replace [b, b, b] [] cs"
        by (rule replace_at_other) simp
      from Cons 1 have n: "\<not> sublist [b, b, b] (replace [b, b, b] [] cs)" by simp
      have "\<not> prefix [b, b, b] (c # replace [b, b, b] [] cs)"
      proof
        assume "prefix [b, b, b] (c # replace [b, b, b] [] cs)"
        then have c: "c = b" and "prefix [b, b] (replace [b, b, b] [] cs)"
          by auto
        from replace_starts_two [OF this(2)] c p show False
          by simp
      qed
      with n have "\<not> sublist [b, b, b] (c # replace [b, b, b] [] cs)"
        by (simp add: sublist_Cons_right)
      then show ?thesis unfolding Cons r .
    qed
  qed
qed

lemma replace_three_backticks: "\<not> sublist ''```'' (replace ''```'' [] s)"
  by (rule replace_three)

lemma replace_subseq: "new = [] \<Longrightarrow> subseq (replace old new s) s"
proof (induction old new s rule: replace.induct)
  case (1 old new)
  then show ?case by simp
next
  case (2 old new c cs)
  have "subseq (drop (length old) (c # cs)) (c # cs)"
    by (rule suffix_imp_subseq [OF suffix_drop])
  with 2 show ?case
    by (auto intro: subseq_order.trans)
qed

section \<open>Facts about the parser and the classifier\<close>

lemma trimmed_fenced: "trimmed (fenced tag p)"
  by (simp add: trimmed_def fenced_def isspace_def whitespace_def)

lemma sublist_json_fence: "sublist ''```json'' s \<Longrightarrow> sublist ''```'' s"
proof -
  have "sublist ''```'' ''```json''"
    by (simp add: sublist_Cons_right)
  then show "sublist ''```json'' s \<Longrightarrow> sublist ''```'' s"
    by (rule sublist_order.order.trans)
qed

lemma replace_fence_interior:
  assumes "\<not> sublist ''```'' p"
  shows "replace ''```'' [] (CHR ''\<newline>'' # p @ ''\<newline>```'') = CHR ''\<newline>'' # p @ ''\<newline>''"
proof -
  have "\<not> sublist ''```'' (CHR ''\<newline>'' # p)"
    using assms by (simp add: sublist_Cons_other)
  from replace_past [OF _ _ this, of "CHR ''\<newline>''" "[]" "''```''"]
  show ?thesis by simp
qed

lemma replace_json_interior:
  assumes "\<not> sublist ''```'' p"
  shows "replace ''```json'' [] (CHR ''\<newline>'' # p @ ''\<newline>```'') = CHR ''\<newline>'' # p @ ''\<newline>```''"
proof -
  from assms have "\<not> sublist ''```json'' p"
    using sublist_json_fence by blast
  then have "\<not> sublist ''```json'' (CHR ''\<newline>'' # p)"
    by (simp add: sublist_Cons_other)
  from replace_past [OF _ _ this, of "CHR ''\<newline>''" "[]" "''```''"]
  show ?thesis by simp
qed

lemma cleaned_text_fenced:
  assumes "tag = ''json'' \<or> tag = ''''" and "\<not> sublist ''```'' p"
  shows "cleaned_text (fenced tag p) = strip p"
proof -
  have s: "strip (fenced tag p) = fenced tag p"
    by (rule strip_trimmed [OF trimmed_fenced])
  have p: "prefix ''```'' (fenced tag p)"
    by (simp add: fenced_def)
  have "replace ''```json'' [] (fenced tag p) = ''```'' @ CHR ''\<newline>'' # p @ ''\<newline>```''
      \<or> replace ''```json'' [] (fenced tag p) = CHR ''\<newline>'' # p @ ''\<newline>```''"
    using assms(1)
  proof
    assume "tag = ''json''"
    then show ?thesis
      using replace_json_interior [OF assms(2)] by (simp add: fenced_def)
  next
    assume t: "tag = ''''"
    have "\<not> sublist ''```json'' ''```''"
      by (simp add: sublist_Cons_right)
    from replace_past [OF _ _ this, of "CHR ''\<newline>''" "[]" "p @ ''\<newline>```''"]
      replace_json_interior [OF assms(2)] t
    show ?thesis by (simp add: fenced_def)
  qed
  then have "replace ''```'' [] (replace ''```json'' [] (fenced tag p)) = CHR ''\<newline>'' # p @ ''\<newline>''"
    using replace_fence_interior [OF assms(2)] by auto
  moreover have "strip (''\<newline>'' @ p @ ''\<newline>'') = strip p"
    by (rule strip_padded) (simp_all add: isspace_def whitespace_def)
  ultimately show ?thesis
    using s p by (simp add: cleaned_text_def remove_fences_def)
qed

lemma remove_fences_no_fence:
  assumes "prefix ''```'' c"
  shows "\<not> sublist ''```'' (remove_fences c)"
proof
  assume "sublist ''```'' (remove_fences c)"
  with assms have "sublist ''```'' (strip (replace ''```'' [] (replace ''```json'' [] c)))"
    by (simp add: remove_fences_def)
  from sublist_order.order.trans [OF this sublist_strip] replace_three_backticks
  show False by blast
qed

lemma remove_fences_idem: "remove_fences (remove_fences c) = remove_fences c"
proof (cases "prefix ''```'' c")
  case True
  from remove_fences_no_fence [OF this] have "\<not> prefix ''```'' (remove_fences c)"
    using prefix_imp_sublist by blast
  then show ?thesis by (simp add: remove_fences_def)
next
  case False
  then show ?thesis by (simp add: remove_fences_def)
qed

lemma trimmed_cleaned_text: "trimmed (cleaned_text text)"
  by (simp add: cleaned_text_def remove_fences_def trimmed_strip)

lemma cleaned_text_idem: "cleaned_text (cleaned_text text) = cleaned_text text"
proof -
  have "strip (cleaned_text text) = cleaned_text text"
    by (rule strip_trimmed [OF trimmed_cleaned_text])
  then show ?thesis
    using remove_fences_idem [of "strip text"] by (simp add: cleaned_text_def)
qed

lemma first_match_member:
  "first_match order out \<in> set order \<or> first_match order out = ''customer service''"
  by (induction order) auto

lemma first_match_none:
  "\<forall>a\<in>set order. \<not> occurs_in a out \<Longrightarrow> first_match order out = ''customer service''"
  by (induction order) auto

lemma first_match_first:
  assumes "\<exists>a\<in>set order. occurs_in a out"
  shows "\<exists>i<length order. first_match order out = order ! i \<and> occurs_in (order ! i) out
           \<and> (\<forall>j<i. \<not> occurs_in (order ! j) out)"
  using assms
proof (induction order)
  case Nil
  then show ?case by simp
next
  case (Cons a as)
  show ?case
  proof (cases "occurs_in a out")
    case True
    then have "first_match (a # as) out = (a # as) ! 0 \<and> occurs_in ((a # as) ! 0) out
        \<and> (\<forall>j<0. \<not> occurs_in ((a # as) ! j) out)"
      by simp
    then show ?thesis by blast
  next
    case False
    with Cons.prems have "\<exists>a\<in>set as. occurs_in a out" by simp
    from Cons.IH [OF this] obtain i where i: "i < length as"
      "first_match as out = as ! i" "occurs_in (as ! i) out" "\<forall>j<i. \<not> occurs_in (as ! j) out"
      by blast
    have "\<forall>j<Suc i. \<not> occurs_in ((a # as) ! j) out"
    proof (intro allI impI)
      fix j assume "j < Suc i"
      with i(4) False show "\<not> occurs_in ((a # as) ! j) out"
        by (cases j) simp_all
    qed
    with i False have "Suc i < length (a # as) \<and> first_match (a # as) out = (a # as) ! Suc i
        \<and> occurs_in ((a # as) ! Suc i) out \<and> (\<forall>j<Suc i. \<not> occurs_in ((a # as) ! j) out)"
      by simp
    then show ?thesis by blast
  qed
qed

section \<open>The claims\<close>

lemma fallback_allowed: "''customer service'' \<in> allowed"
  by (simp add: allowed_def)

lemma set_declaration_order: "iteration_order declaration_order"
  by (simp add: iteration_order_def declaration_order_def allowed_def)

lemma first_match_allowed:
  "iteration_order order \<Longrightarrow> first_match order out \<in> allowed"
  using first_match_member [of order out] fallback_allowed
  by (auto simp: iteration_order_def)

text \<open>
  C1. Whatever text the generation service returns for the classification prompt, noisy,
  of several lines or in other letter case, \<open>classify_inquiry\<close> (in \<open>llms.py\<close> and in
  \<open>api.py\<close>) returns a member of the set of the seven categories, never another text.
\<close>

theorem classify_returns_category:
  assumes "iteration_order order"
  shows "(mistral_call (CLASSIFY_PROMPT inquiry) sv = (Inr text, sv') \<longrightarrow>
          (\<exists>c\<in>allowed. classify_inquiry order inquiry sv = (Inr c, sv')))
       \<and> (mistral_call (API_CLASSIFY_PROMPT inquiry) sv = (Inr text, sv') \<longrightarrow>
          (\<exists>c\<in>allowed. api_classify_inquiry order inquiry sv = (Inr c, sv')))"
  using first_match_allowed [OF assms]
  by (simp add: classify_inquiry_def api_classify_inquiry_def)

lemma mistral_call_always:
  "mistral_call p (always text) = (Inr text, (always text)\<lparr>calls := 1\<rparr>)"
  by (simp add: mistral_call_def always_def)

lemma noisy_card_arrival:
  "first_match declaration_order
     (lower (strip ''  Sure!\<newline>CATEGORY: Card Arrival.\<newline>'')) = ''card arrival''"
  by code_simp

theorem classify_returns_category_witness:
  "iteration_order declaration_order
   \<and> (\<exists>c\<in>allowed. classify_inquiry declaration_order ''Where is my card?''
         (always ''  Sure!\<newline>CATEGORY: Card Arrival.\<newline>'')
       = (Inr c, (always ''  Sure!\<newline>CATEGORY: Card Arrival.\<newline>'')\<lparr>calls := 1\<rparr>))
   \<and> classify_inquiry declaration_order ''Where is my card?''
         (always ''  Sure!\<newline>CATEGORY: Card Arrival.\<newline>'')
       = (Inr ''card arrival'', (always ''  Sure!\<newline>CATEGORY: Card Arrival.\<newline>'')\<lparr>calls := 1\<rparr>)"
  using classify_returns_category [OF set_declaration_order,
      of "''Where is my card?''" "always ''  Sure!\<newline>CATEGORY: Card Arrival.\<newline>''"
         "''  Sure!\<newline>CATEGORY: Card Arrival.\<newline>''"
         "(always ''  Sure!\<newline>CATEGORY: Card Arrival.\<newline>'')\<lparr>calls := 1\<rparr>"]
    set_declaration_order mistral_call_always noisy_card_arrival
  by (simp add: classify_inquiry_def)

lemma reversed_iteration_order: "iteration_order (rev declaration_order)"
  using set_declaration_order by (simp add: iteration_order_def)

text \<open>
  C2. The claim: when the lower-cased, trimmed text of the generation service contains more
  than one label, \<open>classify_inquiry\<close> returns the one that comes first in the order of
  declaration. The code iterates over a set: with the labels visited in the reverse of
  their declaration, a text that contains \<open>card arrival\<close> and \<open>change pin\<close> is classified
  as \<open>change pin\<close>, where the first contained label in declaration order is
  \<open>card arrival\<close>.
\<close>

theorem classify_tie_break_counterexample:
  "iteration_order (rev declaration_order)
   \<and> occurs_in ''card arrival'' (lower (strip ''Card arrival, or change PIN?''))
   \<and> occurs_in ''change pin'' (lower (strip ''Card arrival, or change PIN?''))
   \<and> first_match declaration_order (lower (strip ''Card arrival, or change PIN?'')) = ''card arrival''
   \<and> fst (classify_inquiry (rev declaration_order) ''My card''
         (always ''Card arrival, or change PIN?'')) = Inr ''change pin''"
proof -
  have "occurs_in ''card arrival'' (lower (strip ''Card arrival, or change PIN?''))"
    by code_simp
  moreover have "occurs_in ''change pin'' (lower (strip ''Card arrival, or change PIN?''))"
    by code_simp
  moreover have "first_match declaration_order (lower (strip ''Card arrival, or change PIN?''))
      = ''card arrival''"
    by code_simp
  moreover have "first_match (rev declaration_order) (lower (strip ''Card arrival, or change PIN?''))
      = ''change pin''"
    by code_simp
  ultimately show ?thesis
    using reversed_iteration_order
    by (simp add: classify_inquiry_def mistral_call_always)
qed

text \<open>
  C2, amended. For every order in which the set is iterated and every text of the
  generation service whose stripped, lower-cased form contains a label,
  \<open>classify_inquiry\<close> (in \<open>llms.py\<close> and in \<open>api.py\<close>) returns the contained label that
  is visited first: no label visited before it occurs in the text. The result is a
  function of the text and of the iteration order.
\<close>

theorem classify_first_visited:
  assumes "iteration_order order"
    and "\<exists>a\<in>allowed. sublist a (lower (strip text))"
  shows "(mistral_call (CLASSIFY_PROMPT inquiry) sv = (Inr text, sv') \<longrightarrow>
          (\<exists>i<length order. classify_inquiry order inquiry sv = (Inr (order ! i), sv')
             \<and> sublist (order ! i) (lower (strip text))
             \<and> (\<forall>j<i. \<not> sublist (order ! j) (lower (strip text)))))
       \<and> (mistral_call (API_CLASSIFY_PROMPT inquiry) sv = (Inr text, sv') \<longrightarrow>
          (\<exists>i<length order. api_classify_inquiry order inquiry sv = (Inr (order ! i), sv')
             \<and> sublist (order ! i) (lower (strip text))
             \<and> (\<forall>j<i. \<not> sublist (order ! j) (lower (strip text)))))"
proof -
  from assms have "\<exists>a\<in>set order. occurs_in a (lower (strip text))"
    by (simp add: iteration_order_def occurs_in_sublist)
  from first_match_first [OF this] show ?thesis
    by (simp add: classify_inquiry_def api_classify_inquiry_def occurs_in_sublist)
qed

theorem classify_first_visited_witness:
  "iteration_order (rev declaration_order)
   \<and> (\<exists>a\<in>allowed. sublist a (lower (strip ''Card arrival, or change PIN?'')))
   \<and> (\<exists>i<length (rev declaration_order).
         classify_inquiry (rev declaration_order) ''My card'' (always ''Card arrival, or change PIN?'')
           = (Inr (rev declaration_order ! i), (always ''Card arrival, or change PIN?'')\<lparr>calls := 1\<rparr>)
         \<and> sublist (rev declaration_order ! i) (lower (strip ''Card arrival, or change PIN?''))
         \<and> (\<forall>j<i. \<not> sublist (rev declaration_order ! j) (lower (strip ''Card arrival, or change PIN?''))))"
proof -
  have "occurs_in ''card arrival'' (lower (strip ''Card arrival, or change PIN?''))"
    by code_simp
  then have e: "\<exists>a\<in>allowed. sublist a (lower (strip ''Card arrival, or change PIN?''))"
    by (auto simp: allowed_def occurs_in_sublist)
  from classify_first_visited [OF reversed_iteration_order e,
      of "''My card''" "always ''Card arrival, or change PIN?''"
         "(always ''Card arrival, or change PIN?'')\<lparr>calls := 1\<rparr>"]
    reversed_iteration_order e mistral_call_always
  show ?thesis by simp
qed

lemma isspace_lower_char: "isspace (lower_char c) = isspace c"
proof (cases "map_of (zip uppercase lowercase) c")
  case None
  then show ?thesis by (simp add: lower_char_def)
next
  case (Some l)
  then have "(c, l) \<in> set (zip uppercase lowercase)"
    by (rule map_of_SomeD)
  then have "c \<in> set uppercase" and "l \<in> set lowercase"
    by (auto dest: set_zip_leftD set_zip_rightD)
  moreover have "\<forall>x\<in>set uppercase. \<not> isspace x"
    by (simp add: uppercase_def isspace_def whitespace_def)
  moreover have "\<forall>x\<in>set lowercase. \<not> isspace x"
    by (simp add: lowercase_def isspace_def whitespace_def)
  ultimately show ?thesis
    using Some by (simp add: lower_char_def)
qed

lemma lower_strip: "lower (strip s) = strip (lower s)"
proof -
  have c: "isspace \<circ> lower_char = isspace"
    by (rule ext) (simp add: isspace_lower_char)
  have l: "lower (lstrip u) = lstrip (lower u)" for u
    by (simp add: lower_def lstrip_def dropWhile_map c)
  have r: "lower (rstrip u) = rstrip (lower u)" for u
    by (simp add: lower_def rstrip_def dropWhile_map rev_map c)
  show ?thesis by (simp add: strip_def l r)
qed

text \<open>
  C3. The generated text is stripped and lower-cased (in either order: the result is the
  same), and a label matches when it occurs in that text as a substring. When none of the
  seven labels occurs in it, \<open>classify_inquiry\<close> (in \<open>llms.py\<close> and in \<open>api.py\<close>) returns
  \<open>customer service\<close>.
\<close>

theorem classify_fallback:
  assumes "iteration_order order"
    and "\<forall>a\<in>allowed. \<not> sublist a (lower (strip text))"
  shows "(mistral_call (CLASSIFY_PROMPT inquiry) sv = (Inr text, sv') \<longrightarrow>
          classify_inquiry order inquiry sv = (Inr ''customer service'', sv'))
       \<and> (mistral_call (API_CLASSIFY_PROMPT inquiry) sv = (Inr text, sv') \<longrightarrow>
          api_classify_inquiry order inquiry sv = (Inr ''customer service'', sv'))
       \<and> lower (strip text) = strip (lower text)"
proof -
  from assms have "\<forall>a\<in>set order. \<not> occurs_in a (lower (strip text))"
    by (simp add: iteration_order_def occurs_in_sublist)
  from first_match_none [OF this] show ?thesis
    by (simp add: classify_inquiry_def api_classify_inquiry_def lower_strip)
qed

theorem classify_fallback_witness:
  "iteration_order declaration_order
   \<and> \<not> (\<exists>a\<in>allowed. sublist a (lower (strip '' I cannot tell.\<newline>'')))
   \<and> classify_inquiry declaration_order ''Can you start my computer?'' (always '' I cannot tell.\<newline>'')
       = (Inr ''customer service'', (always '' I cannot tell.\<newline>'')\<lparr>calls := 1\<rparr>)
   \<and> api_classify_inquiry declaration_order ''Can you start my computer?'' (always '' I cannot tell.\<newline>'')
       = (Inr ''customer service'', (always '' I cannot tell.\<newline>'')\<lparr>calls := 1\<rparr>)"
proof -
  have "list_all (\<lambda>a. \<not> occurs_in a (lower (strip '' I cannot tell.\<newline>''))) declaration_order"
    by code_simp
  then have n: "\<forall>a\<in>allowed. \<not> sublist a (lower (strip '' I cannot tell.\<newline>''))"
    using set_declaration_order
    by (simp add: iteration_order_def occurs_in_sublist list_all_iff)
  from classify_fallback [OF set_declaration_order n,
      of "''Can you start my computer?''" "always '' I cannot tell.\<newline>''"
         "(always '' I cannot tell.\<newline>'')\<lparr>calls := 1\<rparr>"]
    set_declaration_order n mistral_call_always
  show ?thesis by simp
qed

lemma safe_json_parse_fenced:
  assumes "tag = ''json'' \<or> tag = ''''" and "\<not> sublist ''```'' p"
  shows "safe_json_parse (fenced tag p) =
     (case json_loads (strip p) of Inr data \<Rightarrow> (data, None) | Inl e \<Rightarrow> (PyNone, Some e))"
  by (simp add: safe_json_parse_def cleaned_text_fenced [OF assms])

lemma cleaned_text_bare:
  assumes "\<not> sublist ''```'' p"
  shows "cleaned_text p = strip p"
proof -
  have "\<not> sublist ''```'' (strip p)"
    using assms sublist_strip [of p] sublist_order.order.trans by blast
  then have "\<not> prefix ''```'' (strip p)"
    using prefix_imp_sublist by blast
  then show ?thesis by (simp add: cleaned_text_def remove_fences_def)
qed

lemma age_payload: "\<not> sublist ''```'' ''{\"age\": 30}''"
  by (simp add: sublist_Cons_right)

lemma age_decoded: "json_loads (strip ''{\"age\": 30}'') = Inr (PyDict [(code_points ''age'', PyInt 30)])"
  by code_simp

text \<open>
  C4. A payload between an opening fence, with the language tag \<open>json\<close> or with none, and
  a closing fence is handed to the decoder without the fences and the tag, stripped: the
  pair that \<open>safe_json_parse\<close> returns is the decoder's result for the payload. (The payload
  is one that holds no three backticks itself.) In particular the text
  \<open>```json\n{"age": 30}\n```\<close> is parsed to the object with \<open>age\<close> 30 and no error.
\<close>

theorem parse_fenced_json:
  assumes "tag = ''json'' \<or> tag = ''''" and "\<not> sublist ''```'' p"
  shows "cleaned_text (fenced tag p) = strip p
       \<and> safe_json_parse (fenced tag p) =
           (case json_loads (strip p) of Inr data \<Rightarrow> (data, None) | Inl e \<Rightarrow> (PyNone, Some e))
       \<and> safe_json_parse ''```json\<newline>{\"age\": 30}\<newline>```''
           = (PyDict [(code_points ''age'', PyInt 30)], None)"
proof -
  have "''```json\<newline>{\"age\": 30}\<newline>```'' = fenced ''json'' ''{\"age\": 30}''"
    by (simp add: fenced_def)
  then have "safe_json_parse ''```json\<newline>{\"age\": 30}\<newline>```''
      = (PyDict [(code_points ''age'', PyInt 30)], None)"
    using safe_json_parse_fenced [OF _ age_payload, of "''json''"] age_decoded
    by simp
  with cleaned_text_fenced [OF assms] safe_json_parse_fenced [OF assms]
  show ?thesis by simp
qed

theorem parse_fenced_json_witness:
  "\<not> sublist ''```'' ''{\"age\": 30}''
   \<and> fenced ''json'' ''{\"age\": 30}'' = ''```json\<newline>{\"age\": 30}\<newline>```''
   \<and> cleaned_text (fenced ''json'' ''{\"age\": 30}'') = ''{\"age\": 30}''
   \<and> safe_json_parse (fenced ''json'' ''{\"age\": 30}'') = (PyDict [(code_points ''age'', PyInt 30)], None)"
proof -
  have s: "strip ''{\"age\": 30}'' = ''{\"age\": 30}''"
    by code_simp
  from parse_fenced_json [OF _ age_payload, of "''json''"] age_payload age_decoded s
  show ?thesis by (simp add: fenced_def)
qed

lemma not_json_fails: "json_loads (cleaned_text ''not json at all'') = Inl JSONDecodeError"
  by code_simp

text \<open>
  C5. When the decoder fails on the cleaned text, \<open>safe_json_parse\<close> returns \<open>None\<close> as
  the data together with the error, and \<open>extract_medical_json\<close> returns them with the raw
  text: the text that was given to the parser, unchanged by the cleaning. No exception
  leaves \<open>safe_json_parse\<close>: for every text it returns either data without an error or
  \<open>None\<close> with an error. For the text \<open>not json at all\<close> it returns \<open>None\<close> and an error.
\<close>

theorem parse_failure_is_returned:
  assumes "json_loads (cleaned_text raw) = Inl e"
  shows "safe_json_parse raw = (PyNone, Some e)
       \<and> (mistral_call (extraction_prompt notes) sv = (Inr text, sv') \<and> raw = strip text \<longrightarrow>
            extract_medical_json notes sv = (Inr (raw, PyNone, Some e), sv'))
       \<and> ((\<exists>data. safe_json_parse t = (data, None) \<and> json_loads (cleaned_text t) = Inr data)
            \<or> (\<exists>x. safe_json_parse t = (PyNone, Some x) \<and> json_loads (cleaned_text t) = Inl x))
       \<and> safe_json_parse ''not json at all'' = (PyNone, Some JSONDecodeError)"
proof -
  have "safe_json_parse raw = (PyNone, Some e)"
    using assms by (simp add: safe_json_parse_def)
  moreover from this have "mistral_call (extraction_prompt notes) sv = (Inr text, sv') \<and> raw = strip text \<longrightarrow>
      extract_medical_json notes sv = (Inr (raw, PyNone, Some e), sv')"
    by (auto simp: extract_medical_json_def Let_def)
  moreover have "(\<exists>data. safe_json_parse t = (data, None) \<and> json_loads (cleaned_text t) = Inr data)
      \<or> (\<exists>x. safe_json_parse t = (PyNone, Some x) \<and> json_loads (cleaned_text t) = Inl x)"
    by (cases "json_loads (cleaned_text t)") (simp_all add: safe_json_parse_def)
  moreover have "safe_json_parse ''not json at all'' = (PyNone, Some JSONDecodeError)"
    using not_json_fails by (simp add: safe_json_parse_def)
  ultimately show ?thesis by blast
qed

theorem parse_failure_is_returned_witness:
  "json_loads (cleaned_text ''not json at all'') = Inl JSONDecodeError
   \<and> strip ''not json at all\<newline>'' = ''not json at all''
   \<and> safe_json_parse ''not json at all'' = (PyNone, Some JSONDecodeError)
   \<and> extract_medical_json ''A patient.'' (always ''not json at all\<newline>'')
       = (Inr (''not json at all'', PyNone, Some JSONDecodeError),
          (always ''not json at all\<newline>'')\<lparr>calls := 1\<rparr>)"
proof -
  have s: "strip ''not json at all\<newline>'' = ''not json at all''"
    by code_simp
  from parse_failure_is_returned [OF not_json_fails, of "''A patient.''"
      "always ''not json at all\<newline>''" "''not json at all\<newline>''"
      "(always ''not json at all\<newline>'')\<lparr>calls := 1\<rparr>"]
    not_json_fails s mistral_call_always
  show ?thesis by simp
qed

text \<open>
  C6. The claim: for every JSON payload, the parser gives the same result for the bare
  payload and for the payload wrapped in fences. The payload \<open>{"a": "```"}\<close> is valid
  JSON; bare, it is parsed to an object whose \<open>a\<close> is the string of three backticks, but
  wrapped in fences it is parsed to an object whose \<open>a\<close> is the empty string.
\<close>

theorem fenced_differs_counterexample:
  "safe_json_parse ''{\"a\": \"```\"}'' = (PyDict [(code_points ''a'', PyStr (code_points ''```''))], None)
   \<and> fenced ''json'' ''{\"a\": \"```\"}'' = ''```json\<newline>{\"a\": \"```\"}\<newline>```''
   \<and> safe_json_parse (fenced ''json'' ''{\"a\": \"```\"}'') = (PyDict [(code_points ''a'', PyStr [])], None)"
proof -
  have "json_loads (cleaned_text ''{\"a\": \"```\"}'')
      = Inr (PyDict [(code_points ''a'', PyStr (code_points ''```''))])"
    by code_simp
  moreover have "json_loads (cleaned_text ''```json\<newline>{\"a\": \"```\"}\<newline>```'')
      = Inr (PyDict [(code_points ''a'', PyStr [])])"
    by code_simp
  ultimately show ?thesis
    by (simp add: safe_json_parse_def fenced_def)
qed

text \<open>
  C6, amended. For every payload that holds no three backticks, the parser gives the same
  result for the bare payload and for the payload wrapped in fences (with the tag \<open>json\<close>
  or with none). Removing the fences is idempotent: removing them from a text twice gives
  what removing them once gives, and so does the parser on a text that was cleaned before.
\<close>

theorem fenced_as_bare:
  assumes "tag = ''json'' \<or> tag = ''''" and "\<not> sublist ''```'' p"
  shows "safe_json_parse (fenced tag p) = safe_json_parse p
       \<and> remove_fences (remove_fences c) = remove_fences c
       \<and> cleaned_text (cleaned_text t) = cleaned_text t
       \<and> safe_json_parse (cleaned_text t) = safe_json_parse t"
  using cleaned_text_fenced [OF assms] cleaned_text_bare [OF assms(2)]
  by (simp add: safe_json_parse_def remove_fences_idem cleaned_text_idem)

theorem fenced_as_bare_witness:
  "\<not> sublist ''```'' ''{\"age\": 30}''
   \<and> safe_json_parse (fenced ''json'' ''{\"age\": 30}'') = safe_json_parse ''{\"age\": 30}''
   \<and> safe_json_parse (fenced '''' ''{\"age\": 30}'') = safe_json_parse ''{\"age\": 30}''
   \<and> safe_json_parse ''{\"age\": 30}'' = (PyDict [(code_points ''age'', PyInt 30)], None)"
proof -
  have "safe_json_parse ''{\"age\": 30}'' = (PyDict [(code_points ''age'', PyInt 30)], None)"
    using cleaned_text_bare [OF age_payload] age_decoded
    by (simp add: safe_json_parse_def)
  with fenced_as_bare [OF _ age_payload, of "''json''"] fenced_as_bare [OF _ age_payload, of "''''"]
    age_payload
  show ?thesis by simp
qed

text \<open>
  C7. The claim: when the raw text is not empty, exactly one of the parsed value and the
  error is present. When the generation service answers \<open>null\<close>, the decoder succeeds
  with \<open>None\<close>: \<open>extract_medical_json\<close> returns the raw text \<open>null\<close> with neither a
  parsed value nor an error.
\<close>

theorem extract_null_has_neither:
  "extract_medical_json notes (always ''null'')
     = (Inr (''null'', PyNone, None), (always ''null'')\<lparr>calls := 1\<rparr>)"
proof -
  have "strip ''null'' = ''null''"
    by code_simp
  moreover have "json_loads (cleaned_text ''null'') = Inr PyNone"
    by code_simp
  ultimately show ?thesis
    by (simp add: extract_medical_json_def mistral_call_always safe_json_parse_def)
qed

lemma subseq_strip: "subseq (strip s) s"
  by (rule sublist_imp_subseq [OF sublist_strip])

lemma subseq_cleaned_text: "subseq (cleaned_text text) text"
proof (cases "prefix ''```'' (strip text)")
  case True
  have "subseq (strip (replace ''```'' [] (replace ''```json'' [] (strip text))))
      (replace ''```'' [] (replace ''```json'' [] (strip text)))"
    by (rule subseq_strip)
  also have "subseq \<dots> (replace ''```json'' [] (strip text))"
    by (rule replace_subseq) simp
  also have "subseq \<dots> (strip text)"
    by (rule replace_subseq) simp
  also have "subseq \<dots> text"
    by (rule subseq_strip)
  finally show ?thesis
    using True by (simp add: cleaned_text_def remove_fences_def)
next
  case False
  then show ?thesis
    by (simp add: cleaned_text_def remove_fences_def subseq_strip)
qed

text \<open>
  C9. When the stripped text starts with three backticks, the text handed to the decoder
  holds no \<open>```\<close> (and so no \<open>```json\<close>) anywhere: every occurrence is removed, not only
  the fences at the two ends, and nothing is added (the cleaned text is what is left of the
  text after deletions). So three backticks inside a JSON string are deleted from the
  parsed content: fenced, \<open>{"a": "x```y"}\<close> is parsed to an object whose \<open>a\<close> is \<open>xy\<close>.
\<close>

theorem fences_removed_everywhere:
  assumes "prefix ''```'' (strip text)"
  shows "cleaned_text text = strip (replace ''```'' '''' (replace ''```json'' '''' (strip text)))
       \<and> \<not> sublist ''```'' (cleaned_text text)
       \<and> \<not> sublist ''```json'' (cleaned_text text)
       \<and> subseq (cleaned_text text) text
       \<and> safe_json_parse ''```json\<newline>{\"a\": \"x```y\"}\<newline>```''
           = (PyDict [(code_points ''a'', PyStr (code_points ''xy''))], None)"
proof -
  have n: "\<not> sublist ''```'' (cleaned_text text)"
    using remove_fences_no_fence [OF assms] by (simp add: cleaned_text_def)
  then have "\<not> sublist ''```json'' (cleaned_text text)"
    using sublist_json_fence by blast
  moreover have "json_loads (cleaned_text ''```json\<newline>{\"a\": \"x```y\"}\<newline>```'')
      = Inr (PyDict [(code_points ''a'', PyStr (code_points ''xy''))])"
    by code_simp
  ultimately show ?thesis
    using n assms subseq_cleaned_text [of "text"]
    by (simp add: cleaned_text_def remove_fences_def safe_json_parse_def)
qed

theorem fences_removed_everywhere_witness:
  "prefix ''```'' (strip '' ```json\<newline>{\"a\": \"x```y\"}\<newline>```\<newline>'')
   \<and> cleaned_text '' ```json\<newline>{\"a\": \"x```y\"}\<newline>```\<newline>'' = ''{\"a\": \"xy\"}''
   \<and> \<not> sublist ''```'' (cleaned_text '' ```json\<newline>{\"a\": \"x```y\"}\<newline>```\<newline>'')"
proof -
  have p: "prefix ''```'' (strip '' ```json\<newline>{\"a\": \"x```y\"}\<newline>```\<newline>'')"
    by code_simp
  have "cleaned_text '' ```json\<newline>{\"a\": \"x```y\"}\<newline>```\<newline>'' = ''{\"a\": \"xy\"}''"
    by code_simp
  with fences_removed_everywhere [OF p, THEN conjunct2, THEN conjunct1] p show ?thesis
    by blast
qed

lemma calls_mistral_call: "calls (snd (mistral_call p sv)) = Suc (calls sv)"
  by (simp add: mistral_call_def)

lemma one_call:
  "calls (snd (case mistral_call p sv of (Inl e, sv') \<Rightarrow> (Inl e, sv')
                                        | (Inr t, sv') \<Rightarrow> (Inr (f t), sv'))) = Suc (calls sv)"
  using calls_mistral_call [of p sv]
  by (cases "mistral_call p sv") (auto split: sum.splits)

text \<open>
  C8. The claim: every task-level operation, called with an empty or blank text, returns a
  validation error before any generation call. \<open>classify_inquiry\<close> called with the empty
  text sends its prompt to the generation service (one call is counted) and returns a
  category.
\<close>

theorem classify_empty_counterexample:
  "calls (always ''customer service'') = 0
   \<and> fst (classify_inquiry declaration_order '''' (always ''customer service'')) = Inr ''customer service''
   \<and> calls (snd (classify_inquiry declaration_order '''' (always ''customer service''))) = 1"
proof -
  have "first_match declaration_order (lower (strip ''customer service'')) = ''customer service''"
    by code_simp
  then show ?thesis
    by (simp add: classify_inquiry_def mistral_call_always) (simp add: always_def)
qed

text \<open>
  C8, amended. The callers reject an empty or blank text before any generation call: the
  \<open>/chat\<close> handler answers 400 with \<open>message is required\<close> (also when the body is not
  JSON or has no \<open>message\<close>), and each tab of the page shows its warning; the generation
  service is left as it was. The operations themselves do not look at their input: each of
  them, on any text, calls the generation service exactly once.
\<close>

theorem blank_input_rejected_by_callers:
  assumes "strip input = []"
  shows "chat order (JsonObject (TextMessage input)) sv = (BadRequest ''message is required'', sv)
       \<and> chat order NoJson sv = (BadRequest ''message is required'', sv)
       \<and> chat order FalsyJson sv = (BadRequest ''message is required'', sv)
       \<and> chat order (JsonObject NoMessage) sv = (BadRequest ''message is required'', sv)
       \<and> chat order (JsonObject FalsyMessage) sv = (BadRequest ''message is required'', sv)
       \<and> chatbot_tab order input sv = (Warning ''Please type a message.'', sv)
       \<and> classification_tab order input sv = (Warning ''Please enter an inquiry.'', sv)
       \<and> extraction_tab input sv = (Warning ''Please enter notes.'', sv)
       \<and> email_tab input sv = (Warning ''Please enter an email.'', sv)
       \<and> summarization_tab input sv = (Warning ''Please enter text.'', sv)
       \<and> calls (snd (classify_inquiry order t sv)) = Suc (calls sv)
       \<and> calls (snd (api_classify_inquiry order t sv)) = Suc (calls sv)
       \<and> calls (snd (bank_support_reply t c sv)) = Suc (calls sv)
       \<and> calls (snd (generate_support_reply t c sv)) = Suc (calls sv)
       \<and> calls (snd (extract_medical_json t sv)) = Suc (calls sv)
       \<and> calls (snd (generate_mortgage_email t sv)) = Suc (calls sv)
       \<and> calls (snd (summarize_newsletter t sv)) = Suc (calls sv)"
proof -
  have e: "strip '''' = ''''"
    by (simp add: strip_def lstrip_def rstrip_def)
  have "calls (snd (extract_medical_json t sv)) = Suc (calls sv)"
    using calls_mistral_call [of "extraction_prompt t" sv]
    by (cases "mistral_call (extraction_prompt t) sv")
       (auto simp: extract_medical_json_def Let_def split: sum.splits prod.splits)
  with assms e show ?thesis
    unfolding classify_inquiry_def api_classify_inquiry_def bank_support_reply_def
      generate_support_reply_def generate_mortgage_email_def summarize_newsletter_def
    by (simp add: one_call chat_def requested_message_def chatbot_tab_def classification_tab_def
          extraction_tab_def email_tab_def summarization_tab_def)
qed

theorem blank_input_rejected_by_callers_witness:
  "strip '' \<newline> '' = []
   \<and> chat declaration_order (JsonObject (TextMessage '' \<newline> '')) (always ''change pin'')
       = (BadRequest ''message is required'', always ''change pin'')
   \<and> classification_tab declaration_order '' \<newline> '' (always ''change pin'')
       = (Warning ''Please enter an inquiry.'', always ''change pin'')
   \<and> calls (always ''change pin'') = 0
   \<and> calls (snd (classify_inquiry declaration_order '' \<newline> '' (always ''change pin''))) = 1"
proof -
  have b: "strip '' \<newline> '' = []"
    by code_simp
  from blank_input_rejected_by_callers [OF b, of declaration_order "always ''change pin''" "'' \<newline> ''"]
    b
  show ?thesis by (simp add: always_def)
qed

lemma trimmed_allowed: "a \<in> allowed \<Longrightarrow> trimmed a"
  by (auto simp: allowed_def trimmed_def isspace_def whitespace_def)

lemma trimmed_first_match: "iteration_order order \<Longrightarrow> trimmed (first_match order out)"
  by (rule trimmed_allowed [OF first_match_allowed])

text \<open>
  C10. Every text that an operation returns has no leading and no trailing whitespace,
  whatever the input and whatever the generation service answers: the category of
  \<open>classify_inquiry\<close> (in \<open>llms.py\<close> and in \<open>api.py\<close>), the support reply, the raw text of
  the extraction, the mortgage email and the summary report.
\<close>

theorem returned_texts_trimmed:
  assumes "iteration_order order"
  shows "(classify_inquiry order inquiry sv = (Inr c, sv1) \<longrightarrow> trimmed c)
       \<and> (api_classify_inquiry order inquiry sv = (Inr c', sv2) \<longrightarrow> trimmed c')
       \<and> (bank_support_reply inquiry cat sv = (Inr r, sv3) \<longrightarrow> trimmed r)
       \<and> (generate_support_reply inquiry cat sv = (Inr r', sv4) \<longrightarrow> trimmed r')
       \<and> (extract_medical_json notes sv = (Inr (raw, data, err), sv5) \<longrightarrow> trimmed raw)
       \<and> (generate_mortgage_email email_text sv = (Inr m, sv6) \<longrightarrow> trimmed m)
       \<and> (summarize_newsletter newsletter sv = (Inr report_md, sv7) \<longrightarrow> trimmed report_md)"
proof -
  note t = trimmed_first_match [OF assms] trimmed_strip
  have "classify_inquiry order inquiry sv = (Inr c, sv1) \<longrightarrow> trimmed c"
    using t by (auto simp: classify_inquiry_def split: prod.splits sum.splits)
  moreover have "api_classify_inquiry order inquiry sv = (Inr c', sv2) \<longrightarrow> trimmed c'"
    using t by (auto simp: api_classify_inquiry_def split: prod.splits sum.splits)
  moreover have "bank_support_reply inquiry cat sv = (Inr r, sv3) \<longrightarrow> trimmed r"
    using t by (auto simp: bank_support_reply_def split: prod.splits sum.splits)
  moreover have "generate_support_reply inquiry cat sv = (Inr r', sv4) \<longrightarrow> trimmed r'"
    using t by (auto simp: generate_support_reply_def split: prod.splits sum.splits)
  moreover have "extract_medical_json notes sv = (Inr (raw, data, err), sv5) \<longrightarrow> trimmed raw"
    using t by (auto simp: extract_medical_json_def Let_def split: prod.splits sum.splits)
  moreover have "generate_mortgage_email email_text sv = (Inr m, sv6) \<longrightarrow> trimmed m"
    using t by (auto simp: generate_mortgage_email_def split: prod.splits sum.splits)
  moreover have "summarize_newsletter newsletter sv = (Inr report_md, sv7) \<longrightarrow> trimmed report_md"
    using t by (auto simp: summarize_newsletter_def split: prod.splits sum.splits)
  ultimately show ?thesis by blast
qed

theorem returned_texts_trimmed_witness:
  "iteration_order declaration_order
   \<and> classify_inquiry declaration_order ''Hello'' (always ''\<newline> Exchange rate  '')
       = (Inr ''exchange rate'', (always ''\<newline> Exchange rate  '')\<lparr>calls := 1\<rparr>)
   \<and> trimmed ''exchange rate''
   \<and> bank_support_reply ''Hello'' ''exchange rate'' (always ''\<newline> Exchange rate  '')
       = (Inr ''Exchange rate'', (always ''\<newline> Exchange rate  '')\<lparr>calls := 1\<rparr>)
   \<and> generate_mortgage_email ''Hello'' (always ''\<newline> Exchange rate  '')
       = (Inr ''Exchange rate'', (always ''\<newline> Exchange rate  '')\<lparr>calls := 1\<rparr>)
   \<and> summarize_newsletter ''Hello'' (always ''\<newline> Exchange rate  '')
       = (Inr ''Exchange rate'', (always ''\<newline> Exchange rate  '')\<lparr>calls := 1\<rparr>)
   \<and> extract_medical_json ''Hello'' (always ''\<newline> Exchange rate  '')
       = (Inr (''Exchange rate'', PyNone, Some JSONDecodeError), (always ''\<newline> Exchange rate  '')\<lparr>calls := 1\<rparr>)
   \<and> trimmed ''Exchange rate''"
proof -
  have s: "strip ''\<newline> Exchange rate  '' = ''Exchange rate''"
    by code_simp
  have f: "first_match declaration_order (lower ''Exchange rate'') = ''exchange rate''"
    by code_simp
  have j: "safe_json_parse ''Exchange rate'' = (PyNone, Some JSONDecodeError)"
    by code_simp
  have c: "classify_inquiry declaration_order ''Hello'' (always ''\<newline> Exchange rate  '')
       = (Inr ''exchange rate'', (always ''\<newline> Exchange rate  '')\<lparr>calls := 1\<rparr>)"
    by (simp add: classify_inquiry_def mistral_call_always s f)
  have b: "bank_support_reply ''Hello'' ''exchange rate'' (always ''\<newline> Exchange rate  '')
       = (Inr ''Exchange rate'', (always ''\<newline> Exchange rate  '')\<lparr>calls := 1\<rparr>)"
    by (simp add: bank_support_reply_def mistral_call_always s)
  have m: "generate_mortgage_email ''Hello'' (always ''\<newline> Exchange rate  '')
       = (Inr ''Exchange rate'', (always ''\<newline> Exchange rate  '')\<lparr>calls := 1\<rparr>)"
    by (simp add: generate_mortgage_email_def mistral_call_always s)
  have n: "summarize_newsletter ''Hello'' (always ''\<newline> Exchange rate  '')
       = (Inr ''Exchange rate'', (always ''\<newline> Exchange rate  '')\<lparr>calls := 1\<rparr>)"
    by (simp add: summarize_newsletter_def mistral_call_always s)
  have x: "extract_medical_json ''Hello'' (always ''\<newline> Exchange rate  '')
       = (Inr (''Exchange rate'', PyNone, Some JSONDecodeError), (always ''\<newline> Exchange rate  '')\<lparr>calls := 1\<rparr>)"
    by (simp add: extract_medical_json_def mistral_call_always s j)
  note w = returned_texts_trimmed [OF set_declaration_order]
  from w [THEN conjunct1, rule_format, OF c]
    w [THEN conjunct2, THEN conjunct2, THEN conjunct1, rule_format, OF b]
    set_declaration_order c b m n x
  show ?thesis by blast
qed

end
